theory Spec2Isabelle
  imports Complex_Main
begin

text \<open>
  A shallow embedding of three parts of VolView, a viewer and annotation tool for
  volumetric images: two array helpers of the utility module, the state edits of the
  segment list component, and the rasterization of a polygon into a segment group image
  by the polygon tool. The definitions follow the TypeScript sources, quoted before
  each of them; the theorems of the second half state what the functions do.
\<close>

section \<open>Utility functions (src/unnamed/part_000)\<close>

subsection \<open>partition\<close>

text \<open>
  \<^verbatim>\<open>
  export function partition<T>(predicate, arr): [Array<T>, Array<T>] {
    const partitioned: [Array<T>, Array<T>] = [[], []];
    arr.forEach((val: T) => {
      const partitionIndex: 0 | 1 = predicate(val) ? 0 : 1;
      partitioned[partitionIndex].push(val);
    });
    return partitioned;
  }
  \<close>
  The two-item array is a pair; \<open>push\<close> appends at the end; \<open>forEach\<close> visits the
  elements from left to right, which is \<open>fold\<close>.
\<close>

definition partition_push :: "('a \<Rightarrow> bool) \<Rightarrow> 'a \<Rightarrow> 'a list \<times> 'a list \<Rightarrow> 'a list \<times> 'a list" where
  "partition_push predicate val partitioned =
     (if predicate val then (fst partitioned @ [val], snd partitioned)
      else (fst partitioned, snd partitioned @ [val]))"

definition partition_arr :: "('a \<Rightarrow> bool) \<Rightarrow> 'a list \<Rightarrow> 'a list \<times> 'a list" where
  "partition_arr predicate arr = fold (partition_push predicate) arr ([], [])"

subsection \<open>chunk\<close>

text \<open>
  \<^verbatim>\<open>
  export const chunk = <T>(arr: T[], size: number) =>
    Array.from({ length: Math.ceil(arr.length / size) }, (_: any, i: number) =>
      arr.slice(i * size, i * size + size)
    );
  \<close>
  \<open>array_slice\<close> is JavaScript's \<open>Array.prototype.slice\<close> on non-negative bounds: both bounds
  are clamped to the length, and an end before the start gives the empty array.

  For an integer \<open>size\<close>: when \<open>size\<close> is 0 the quotient is \<open>Infinity\<close> (a \<open>RangeError\<close> from
  \<open>Array.from\<close>, the value \<open>None\<close> here) unless the array is empty (\<open>NaN\<close>, length 0);
  when \<open>size\<close> is negative the quotient is at most 0 and the length is clamped to 0.
  An array length is below \<open>2 ^ 32\<close>, where the quotient of two integers in double
  precision has the same ceiling as the exact quotient.
\<close>

definition array_slice :: "'a list \<Rightarrow> nat \<Rightarrow> nat \<Rightarrow> 'a list" where
  "array_slice arr start end' = drop start (take end' arr)"

definition chunk :: "'a list \<Rightarrow> int \<Rightarrow> 'a list list option" where
  "chunk arr size' =
     (if size' = 0 then (if arr = [] then Some [] else None)
      else if size' < 0 then Some []
      else Some (map (\<lambda>i. array_slice arr (i * nat size') (i * nat size' + nat size'))
                   [0 ..< nat \<lceil>real (length arr) / real_of_int size'\<rceil>]))"

section \<open>The segment list (src/src/components/SegmentList.vue)\<close>

subsection \<open>Segments and the segment group store\<close>

text \<open>
  A \<open>SegmentMask\<close> has the fields the component reads and writes: \<open>seg.value\<close>,
  \<open>seg.name\<close>, \<open>seg.color\<close> (an \<open>RGBAColor\<close>, four numbers), \<open>seg.visible\<close> and
  \<open>seg.locked\<close>. Segment values are integers; the other numbers are reals.
\<close>

type_synonym RGBAColor = "real list"

record SegmentMask =
  value' :: int
  name :: string
  color :: RGBAColor
  visible :: bool
  locked :: bool

text \<open>
  The third argument of \<open>updateSegment\<close> is a \<open>Partial<SegmentMask>\<close>, written in the
  component as an object literal such as \<^verbatim>\<open>{ visible: !segment.visible }\<close>: a list of
  field assignments.
\<close>

datatype SegmentField =
    Value int
  | Name string
  | Color RGBAColor
  | Visible bool
  | Locked bool

fun assign_field :: "SegmentField \<Rightarrow> SegmentMask \<Rightarrow> SegmentMask" where
  "assign_field (Value v) seg = seg\<lparr>value' := v\<rparr>"
| "assign_field (Name n) seg = seg\<lparr>name := n\<rparr>"
| "assign_field (Color c) seg = seg\<lparr>color := c\<rparr>"
| "assign_field (Visible b) seg = seg\<lparr>visible := b\<rparr>"
| "assign_field (Locked b) seg = seg\<lparr>locked := b\<rparr>"

definition assign :: "SegmentMask \<Rightarrow> SegmentField list \<Rightarrow> SegmentMask" where
  "assign seg segmentUpdate = fold assign_field segmentUpdate seg"

text \<open>
  The store's \<open>segmentByGroupID\<close> gives, for a group ID, the array of the group's
  segments; the component reads it as \<^verbatim>\<open>segmentByGroupID[groupId.value] ?? []\<close>.
\<close>

type_synonym SegmentGroupStore = "string \<rightharpoonup> SegmentMask list"

text \<open>
  Modelled from the spec: the store method \<open>getSegment\<close> of \<open>@/src/store/segmentGroups\<close>,
  which is not among the sources. A segment is "a labeled region/mask value within a
  segmentation group": \<open>getSegment(groupId, value)\<close> is the segment of that group with
  that value, or nothing when the group or the segment is missing.
\<close>

definition getSegment :: "SegmentGroupStore \<Rightarrow> string \<Rightarrow> int \<Rightarrow> SegmentMask option" where
  "getSegment store segmentGroupID segmentValue =
     (case store segmentGroupID of
        None \<Rightarrow> None
      | Some segs \<Rightarrow> find (\<lambda>seg. value' seg = segmentValue) segs)"

text \<open>
  Modelled from the spec: the store method \<open>updateSegment\<close> of
  \<open>@/src/store/segmentGroups\<close>, which is not among the sources. The segments are "simple
  records owned and mutated by an external reactive store": \<open>updateSegment(groupId,
  value, update)\<close> assigns the fields of \<open>update\<close> to the segment of that group with that
  value and touches nothing else.
\<close>

definition updateSegment ::
  "SegmentGroupStore \<Rightarrow> string \<Rightarrow> int \<Rightarrow> SegmentField list \<Rightarrow> SegmentGroupStore" where
  "updateSegment store segmentGroupID segmentValue segmentUpdate =
     (case store segmentGroupID of
        None \<Rightarrow> store
      | Some segs \<Rightarrow>
          store(segmentGroupID \<mapsto>
            map (\<lambda>seg. if value' seg = segmentValue then assign seg segmentUpdate else seg) segs))"

subsection \<open>The component's state\<close>

text \<open>
  The state the functions of the component read and write: the prop \<open>groupId\<close>, the
  segment group store, the paint store's \<open>activeSegment\<close> (a \<open>Maybe<number>\<close>), and the
  component's own refs \<open>editingSegmentValue\<close>, \<open>editState\<close> and \<open>editDialog\<close>.
\<close>

record SegmentList =
  groupId :: string
  segmentByGroupID :: SegmentGroupStore
  activeSegment :: "int option"
  editingSegmentValue :: "int option"
  editState_name :: string
  editState_color :: string
  editState_opacity :: real
  editDialog :: bool

text \<open>
  \<^verbatim>\<open>
  const segments = computed<SegmentMask[]>(() => {
    return segmentGroupStore.segmentByGroupID[groupId.value] ?? [];
  });
  \<close>
\<close>

definition segments :: "SegmentList \<Rightarrow> SegmentMask list" where
  "segments st = (case segmentByGroupID st (groupId st) of None \<Rightarrow> [] | Some segs \<Rightarrow> segs)"

text \<open>
  JavaScript's truthiness of a \<open>Maybe<number>\<close>: \<open>null\<close>, \<open>undefined\<close> and \<open>0\<close> are falsy.
\<close>

definition truthy :: "int option \<Rightarrow> bool" where
  "truthy n = (case n of None \<Rightarrow> False | Some v \<Rightarrow> v \<noteq> 0)"

text \<open>
  Modelled from the spec: \<open>setActiveSegment\<close> of the paint store
  (\<open>@/src/store/tools/paint\<close>, not among the sources), the setter behind
  \<open>selectedSegment\<close>, whose getter is \<open>paintStore.activeSegment\<close>: it makes the given
  value the active segment.
\<close>

definition setActiveSegment :: "int option \<Rightarrow> SegmentList \<Rightarrow> SegmentList" where
  "setActiveSegment v st = st\<lparr>activeSegment := v\<rparr>"

text \<open>
  \<^verbatim>\<open>
  watch(segments, (segments_) => {
      let reset = true;
      if (segments_ && selectedSegment.value) {
        reset = !segments_.find((seg) => seg.value === selectedSegment.value);
      }
      if (reset) {
        selectedSegment.value = segments_?.length ? segments_[0].value : null;
      }
    }, { immediate: true });
  \<close>
  The array \<open>segments_\<close> (here \<open>segments'\<close>) is truthy; \<open>find\<close> gives a segment
  (truthy) or \<open>undefined\<close>.
\<close>

definition watch_segments :: "SegmentMask list \<Rightarrow> SegmentList \<Rightarrow> SegmentList" where
  "watch_segments segments' st =
     (let reset =
        (if truthy (activeSegment st)
         then find (\<lambda>seg. Some (value' seg) = activeSegment st) segments' = None
         else True)
      in if reset
         then setActiveSegment
                (if length segments' \<noteq> 0 then Some (value' (segments' ! 0)) else None) st
         else st)"

text \<open>
  \<^verbatim>\<open>
  const toggleVisible = (value: number) => {
    const segment = segmentGroupStore.getSegment(groupId.value, value);
    if (!segment) return;
    segmentGroupStore.updateSegment(groupId.value, value, { visible: !segment.visible });
  };
  \<close>
\<close>

definition toggleVisible :: "int \<Rightarrow> SegmentList \<Rightarrow> SegmentList" where
  "toggleVisible v st =
     (case getSegment (segmentByGroupID st) (groupId st) v of
        None \<Rightarrow> st
      | Some segment \<Rightarrow>
          st\<lparr>segmentByGroupID :=
               updateSegment (segmentByGroupID st) (groupId st) v [Visible (\<not> visible segment)]\<rparr>)"

text \<open>
  \<^verbatim>\<open>
  const toggleLock = (value: number) => {
    const seg = segmentGroupStore.getSegment(groupId.value, value);
    if (seg) {
      segmentGroupStore.updateSegment(groupId.value, value, { locked: !seg.locked });
    }
  };
  \<close>
\<close>

definition toggleLock :: "int \<Rightarrow> SegmentList \<Rightarrow> SegmentList" where
  "toggleLock v st =
     (case getSegment (segmentByGroupID st) (groupId st) v of
        Some seg \<Rightarrow>
          st\<lparr>segmentByGroupID :=
               updateSegment (segmentByGroupID st) (groupId st) v [Locked (\<not> locked seg)]\<rparr>
      | None \<Rightarrow> st)"

text \<open>
  \<^verbatim>\<open>
  const allVisible = computed(() => segments.value.every((seg) => seg.visible));
  const allLocked = computed(() => segments.value.every((seg) => seg.locked));

  function toggleGlobalVisible() {
    const visible = !allVisible.value;
    segments.value.forEach((seg) => {
      segmentGroupStore.updateSegment(groupId.value, seg.value, { visible });
    });
  }
  \<close>
  and the same with \<open>locked\<close> for \<open>toggleGlobalLocked\<close>. The loop runs over the array
  read before the first update.
\<close>

definition allVisible :: "SegmentList \<Rightarrow> bool" where
  "allVisible st = list_all visible (segments st)"

definition allLocked :: "SegmentList \<Rightarrow> bool" where
  "allLocked st = list_all locked (segments st)"

definition toggleGlobalVisible :: "SegmentList \<Rightarrow> SegmentList" where
  "toggleGlobalVisible st =
     (let visible' = \<not> allVisible st
      in st\<lparr>segmentByGroupID :=
              fold (\<lambda>seg store. updateSegment store (groupId st) (value' seg) [Visible visible'])
                (segments st) (segmentByGroupID st)\<rparr>)"

definition toggleGlobalLocked :: "SegmentList \<Rightarrow> SegmentList" where
  "toggleGlobalLocked st =
     (let locked' = \<not> allLocked st
      in st\<lparr>segmentByGroupID :=
              fold (\<lambda>seg store. updateSegment store (groupId st) (value' seg) [Locked locked'])
                (segments st) (segmentByGroupID st)\<rparr>)"


text \<open>
  \<^verbatim>\<open>
  function stopEditing(commit: boolean) {
    if (editingSegmentValue.value && commit) {
      const color = [
        ...(hexaToRGBA(editState.color).slice(0, 3) as [number, number, number]),
        Math.round(editState.opacity * 255),
      ] as RGBAColor;
      segmentGroupStore.updateSegment(groupId.value, editingSegmentValue.value, {
        name: editState.name ?? makeDefaultSegmentName(editingSegmentValue.value),
        color,
      });
    }
    editingSegmentValue.value = null;
    editDialog.value = false;
  }
  \<close>
  \<open>hexaToRGBA\<close> (\<open>@/src/utils/color\<close>) is not among the sources and is a parameter.
  The numbers of JavaScript are doubles, taken here as the reals they denote. The
  product \<open>editState.opacity * 255\<close> is the exact product rounded to a double, which is
  not the exact product in general (for the opacity 0.7 the product of doubles is 178.5,
  and the exact product of the double 0.7 and 255 lies below it), so the multiplication
  of doubles is a parameter, \<open>double_times\<close>. \<open>Math.round\<close> gives the integer nearest to its argument, a half
  going upwards, which is exact on a double. \<open>editState.name\<close> is a string, never
  \<open>null\<close> or \<open>undefined\<close>, so \<open>??\<close> keeps it.
\<close>

definition Math_round :: "real \<Rightarrow> real" where
  "Math_round x = real_of_int \<lfloor>x + 1 / 2\<rfloor>"

definition stopEditing ::
  "(string \<Rightarrow> real list) \<Rightarrow> (real \<Rightarrow> real \<Rightarrow> real) \<Rightarrow> bool \<Rightarrow> SegmentList \<Rightarrow> SegmentList" where
  "stopEditing hexaToRGBA double_times commit st =
     (let st' =
        (case editingSegmentValue st of
           None \<Rightarrow> st
         | Some v \<Rightarrow>
             if truthy (Some v) \<and> commit
             then
               (let color' = take 3 (hexaToRGBA (editState_color st))
                               @ [Math_round (double_times (editState_opacity st) 255)]
                in st\<lparr>segmentByGroupID :=
                        updateSegment (segmentByGroupID st) (groupId st) v
                          [Name (editState_name st), Color color']\<rparr>)
             else st)
      in st'\<lparr>editingSegmentValue := None, editDialog := False\<rparr>)"

section \<open>The polygon tool (src/src/components/tools/polygon/PolygonTool.vue)\<close>

subsection \<open>Images\<close>

text \<open>
  A \<open>vtkImageData\<close> of vtk.js, as far as the component uses it: the extent
  \<open>[iMin, iMax, jMin, jMax, kMin, kMax]\<close> (inclusive index bounds), the scalars of the
  point data (one component for each voxel, as the component assumes: "XXX assumes
  single-component image"), and the modification time that \<open>modified()\<close> sets.
  Indices and voxel values are integers.
\<close>

type_synonym Extent = "int \<times> int \<times> int \<times> int \<times> int \<times> int"

type_synonym Vector3 = "int \<times> int \<times> int"

record vtkImageData =
  extent :: Extent
  scalars :: "int list"
  mtime :: nat

text \<open>
  The functions of vtk.js the component calls (a library outside the repository), by
  their documented behaviour:
  \<^item> \<open>getDimensions()\<close>: the number of indices along each axis of the extent;
  \<^item> \<open>containsPoint(bounds, x, y, z)\<close> of \<open>BoundingBox\<close>: false when a coordinate is below
    the lower or above the upper bound of its axis, true otherwise;
  \<^item> \<open>computeOffsetIndex([i, j, k])\<close>: the position of a voxel in the scalar array, the
    first axis running fastest, for one component
    (\<open>(i - iMin) + (j - jMin) * dims[0] + (k - kMin) * dims[0] * dims[1]\<close>);
  \<^item> \<open>setTuple(offset, [value])\<close> on a one-component array: stores the value at that
    position; the array is a typed array, whose length is fixed and which ignores a
    store outside it;
  \<^item> \<open>modified()\<close>: advances the modification counter that all objects of vtk.js
    share (\<open>model.mtime = ++globalMTime\<close>) and makes its new value the modification time
    of the object; here it is given the counter and returns the object, and its caller
    stores the advanced counter.
\<close>

fun getDimensions :: "Extent \<Rightarrow> int list" where
  "getDimensions (iMin, iMax, jMin, jMax, kMin, kMax) =
     [iMax - iMin + 1, jMax - jMin + 1, kMax - kMin + 1]"

fun containsPoint :: "Extent \<Rightarrow> Vector3 \<Rightarrow> bool" where
  "containsPoint (iMin, iMax, jMin, jMax, kMin, kMax) (x, y, z) =
     (if x < iMin \<or> x > iMax then False
      else if y < jMin \<or> y > jMax then False
      else if z < kMin \<or> z > kMax then False
      else True)"

fun computeOffsetIndex :: "Extent \<Rightarrow> Vector3 \<Rightarrow> int" where
  "computeOffsetIndex (iMin, iMax, jMin, jMax, kMin, kMax) (i, j, k) =
     (i - iMin) + (j - jMin) * (iMax - iMin + 1)
       + (k - kMin) * ((iMax - iMin + 1) * (jMax - jMin + 1))"

definition setTuple :: "int list \<Rightarrow> int \<Rightarrow> int \<Rightarrow> int list" where
  "setTuple values offset v =
     (if 0 \<le> offset \<and> offset < int (length values) then values[nat offset := v] else values)"

definition modified :: "nat \<Rightarrow> vtkImageData \<Rightarrow> vtkImageData" where
  "modified globalMTime img = img\<lparr>mtime := Suc globalMTime\<rparr>"

subsection \<open>The grid accessor\<close>

text \<open>
  \<^verbatim>\<open>
  function createGridAccessor(image: vtkImageData, slice: number, axisIdx: 0 | 1 | 2): IGrid2D {
    const axisDims = image.getDimensions();
    axisDims.splice(axisIdx, 1);
    const extent = image.getExtent();
    const pixelData = image.getPointData().getScalars();
    const convertTo3D = (a: number, b: number) => {
      const point = [a, b];
      point.splice(axisIdx, 0, slice);
      return point as Vector3;
    };
    return {
      size: axisDims,
      setAtUnsafe(d0: number, d1: number, value: number): boolean {
        const ijk = convertTo3D(d0, d1);
        if (containsPoint(extent, ...ijk)) {
          const offset = image.computeOffsetIndex(ijk);
          // XXX assumes single-component image
          pixelData.setTuple(offset, [value]);
          return true;
        }
        return false;
      },
    } as unknown as IGrid2D;
  }
  \<close>
  \<open>splice(axisIdx, 1)\<close> removes the element at \<open>axisIdx\<close>, if there is one;
  \<open>splice(axisIdx, 0, slice)\<close> on the two-element array \<open>[a, b]\<close> puts \<open>slice\<close> before
  \<open>a\<close> (index 0), between the two (index 1) or after \<open>b\<close> (index 2 and beyond). The grid
  is its \<open>size\<close> and its \<open>setAtUnsafe\<close>, which returns the image as it has become along
  with its boolean.
\<close>

definition splice_remove :: "nat \<Rightarrow> 'a list \<Rightarrow> 'a list" where
  "splice_remove idx xs = take idx xs @ drop (Suc idx) xs"

definition convertTo3D :: "int \<Rightarrow> nat \<Rightarrow> int \<Rightarrow> int \<Rightarrow> Vector3" where
  "convertTo3D slice' axisIdx a b =
     (if axisIdx = 0 then (slice', a, b)
      else if axisIdx = 1 then (a, slice', b)
      else (a, b, slice'))"

definition grid_size :: "vtkImageData \<Rightarrow> nat \<Rightarrow> int list" where
  "grid_size img axisIdx = splice_remove axisIdx (getDimensions (extent img))"

definition setAtUnsafe ::
  "vtkImageData \<Rightarrow> int \<Rightarrow> nat \<Rightarrow> int \<Rightarrow> int \<Rightarrow> int \<Rightarrow> vtkImageData \<times> bool" where
  "setAtUnsafe img slice' axisIdx d0 d1 v =
     (let ijk = convertTo3D slice' axisIdx d0 d1
      in if containsPoint (extent img) ijk
         then (let offset = computeOffsetIndex (extent img) ijk
               in (img\<lparr>scalars := setTuple (scalars img) offset v\<rparr>, True))
         else (img, False))"

subsection \<open>rasterize\<close>

text \<open>
  The state \<open>rasterize\<close> reads and writes: the paint store's \<open>activeSegmentGroupID\<close>, the
  segment group store's \<open>dataIndex\<close> (the image of each segment group), the
  component's \<open>slice\<close> and \<open>sliceAxis\<close>, and the modification counter of vtk.js.
\<close>

record PolygonTool =
  activeSegmentGroupID :: "string option"
  dataIndex :: "string \<rightharpoonup> vtkImageData"
  slice :: int
  sliceAxis :: nat
  globalMTime :: nat

text \<open>
  \<^verbatim>\<open>
  function rasterize(toolId: ToolID, segment: SegmentMask) {
    if (!paintStore.activeSegmentGroupID) return;
    const image = segmentGroupStore.dataIndex[paintStore.activeSegmentGroupID];
    if (!image) return;

    const points = activeToolStore.getPoints(toolId);
    const axis = sliceAxis.value;

    const indexSpacePoints2D = points.map((pt) => {
      const output = [...image.worldToIndex(pt)];
      output.splice(axis, 1);
      return output as Vector2;
    });

    const grid = createGridAccessor(image, slice.value, axis);
    fillPoly(grid, indexSpacePoints2D, segment.value);
    image.modified();
  }
  \<close>
  Three functions are parameters: \<open>getPoints\<close> of the polygon store (not among the
  sources), \<open>worldToIndex\<close> of vtk.js, which gives the three index coordinates of a
  point, and \<open>fillPoly\<close> of \<open>@thi.ng/rasterize\<close>.
  \<open>fillPoly(grid, pts, value)\<close> reaches the image through the grid only: it reads
  \<open>grid.size\<close> and calls \<open>grid.setAtUnsafe(x, y, value)\<close> for the cells of the polygon, so
  it is given as the function from the size and the points to the cells it sets, in
  the order it sets them. The empty string is a falsy ID; an image is an object, which
  is truthy.
\<close>

definition fill_cells ::
  "int \<Rightarrow> nat \<Rightarrow> int \<Rightarrow> (int \<times> int) list \<Rightarrow> vtkImageData \<Rightarrow> vtkImageData" where
  "fill_cells slice' axisIdx v cells img =
     fold (\<lambda>(d0, d1) img. fst (setAtUnsafe img slice' axisIdx d0 d1 v)) cells img"

definition rasterize ::
  "('tool \<Rightarrow> 'w list) \<Rightarrow> (vtkImageData \<Rightarrow> 'w \<Rightarrow> 'c \<times> 'c \<times> 'c) \<Rightarrow>
   (int list \<Rightarrow> 'c list list \<Rightarrow> (int \<times> int) list) \<Rightarrow>
   'tool \<Rightarrow> SegmentMask \<Rightarrow> PolygonTool \<Rightarrow> PolygonTool" where
  "rasterize getPoints worldToIndex fillPoly toolId segment st =
     (case activeSegmentGroupID st of
        None \<Rightarrow> st
      | Some gid \<Rightarrow>
          if gid = [] then st
          else
            (case dataIndex st gid of
               None \<Rightarrow> st
             | Some img \<Rightarrow>
                 (let points = getPoints toolId;
                      axis = sliceAxis st;
                      indexSpacePoints2D =
                        map (\<lambda>pt. case worldToIndex img pt of
                                    (x, y, z) \<Rightarrow> splice_remove axis [x, y, z]) points;
                      cells = fillPoly (grid_size img axis) indexSpacePoints2D;
                      img' = fill_cells (slice st) axis (value' segment) cells img
                  in st\<lparr>dataIndex := (dataIndex st)(gid \<mapsto> modified (globalMTime st) img'),
                        globalMTime := Suc (globalMTime st)\<rparr>)))"

subsection \<open>Notions for stating the properties of the polygon tool\<close>

text \<open>
  The scalar array of an image has one value for each voxel of the extent
  (\<open>getNumberOfPoints()\<close> values).
\<close>

definition scalars_complete :: "vtkImageData \<Rightarrow> bool" where
  "scalars_complete img = (int (length (scalars img)) = prod_list (getDimensions (extent img)))"

text \<open>
  The position in the scalar array of the grid cell \<open>(d0, d1)\<close> of a slice, for a cell
  within the extent; \<open>None\<close> for a cell outside.
\<close>

definition cell_offset :: "vtkImageData \<Rightarrow> int \<Rightarrow> nat \<Rightarrow> int \<times> int \<Rightarrow> int option" where
  "cell_offset img slice' axisIdx cell =
     (let ijk = convertTo3D slice' axisIdx (fst cell) (snd cell)
      in if containsPoint (extent img) ijk then Some (computeOffsetIndex (extent img) ijk)
         else None)"

section \<open>Example states\<close>

text \<open>A segment list with two segments, the second one selected and being edited.\<close>

definition ex_segments :: "SegmentMask list" where
  "ex_segments =
     [\<lparr>value' = 1, name = ''liver'', color = [255, 0, 0, 255], visible = False, locked = True\<rparr>,
      \<lparr>value' = 2, name = ''spleen'', color = [0, 255, 0, 255], visible = True, locked = True\<rparr>]"

definition ex_list :: SegmentList where
  "ex_list =
     \<lparr>groupId = ''g'', segmentByGroupID = [''g'' \<mapsto> ex_segments], activeSegment = Some 2,
      editingSegmentValue = Some 2, editState_name = ''kidney'', editState_color = ''#0000ff'',
      editState_opacity = 1 / 2, editDialog = True\<rparr>"





text \<open>A two by two image of one slice, and a tool state that holds it.\<close>

definition ex_image :: vtkImageData where
  "ex_image = \<lparr>extent = (0, 1, 0, 1, 0, 0), scalars = [0, 0, 0, 0], mtime = 0\<rparr>"

definition ex_tool :: PolygonTool where
  "ex_tool = \<lparr>activeSegmentGroupID = Some ''g'', dataIndex = [''g'' \<mapsto> ex_image],
              slice = 0, sliceAxis = 2, globalMTime = 0\<rparr>"

text \<open>
  A volume of two by two by two voxels, and a tool state that shows its slice \<open>j = 1\<close>.
\<close>

definition ex_volume :: vtkImageData where
  "ex_volume = \<lparr>extent = (0, 1, 0, 1, 0, 1), scalars = [0, 0, 0, 0, 0, 0, 0, 0], mtime = 3\<rparr>"

definition ex_tool_j :: PolygonTool where
  "ex_tool_j = \<lparr>activeSegmentGroupID = Some ''g'', dataIndex = [''g'' \<mapsto> ex_volume],
                slice = 1, sliceAxis = 1, globalMTime = 5\<rparr>"

text \<open>
  Stand-ins for the three parameters of \<open>rasterize\<close>: a tool with three points; an
  index space that is the world space moved by \<open>(10, 20, 30)\<close>; and a filler for a grid
  of two dimensions that sets the cell of each point it is given and then the first cell
  beyond the width of the grid.
\<close>

definition ex_getPoints :: "nat \<Rightarrow> (real \<times> real \<times> real) list" where
  "ex_getPoints toolId = [(10, 21, 30), (11, 21, 30), (11, 21, 31)]"

definition ex_worldToIndex :: "vtkImageData \<Rightarrow> real \<times> real \<times> real \<Rightarrow> real \<times> real \<times> real" where
  "ex_worldToIndex img pt = (case pt of (x, y, z) \<Rightarrow> (x - 10, y - 20, z - 30))"

definition ex_fillPoly :: "int list \<Rightarrow> real list list \<Rightarrow> (int \<times> int) list" where
  "ex_fillPoly size' pts =
     (case size' of
        [w, h] \<Rightarrow> concat (map (\<lambda>pt. case pt of [x, y] \<Rightarrow> [(\<lfloor>x\<rfloor>, \<lfloor>y\<rfloor>)] | _ \<Rightarrow> []) pts) @ [(w, 0)]
      | _ \<Rightarrow> [])"

section \<open>Theorems\<close>

subsection \<open>partition\<close>

lemma fold_partition_push:
  "fold (partition_push p) xs (ys, zs) = (ys @ filter p xs, zs @ filter (\<lambda>x. \<not> p x) xs)"
  by (induction xs arbitrary: ys zs) (simp_all add: partition_push_def)

lemma length_filter_both:
  "length (filter p xs) + length (filter (\<lambda>x. \<not> p x) xs) = length xs"
  by (induction xs) simp_all

text \<open>
  C3. For every predicate \<open>p\<close> and list \<open>xs\<close>, \<open>partition(p, xs)\<close> is the pair of the
  elements of \<open>xs\<close> that satisfy \<open>p\<close> and of those that do not, each in the order they have
  in \<open>xs\<close> (the two \<open>filter\<close>s), and the two lengths add up to the length of \<open>xs\<close>.
\<close>

theorem partition_arr_filter:
  "partition_arr p xs = (filter p xs, filter (\<lambda>x. \<not> p x) xs) \<and>
   length (fst (partition_arr p xs)) + length (snd (partition_arr p xs)) = length xs"
  by (simp add: partition_arr_def fold_partition_push length_filter_both)

subsection \<open>chunk\<close>

lemma ceiling_quot_nonneg: "0 \<le> \<lceil>real m / real n\<rceil>"
proof -
  have "0 \<le> real m / real n"
    by simp
  then have "- 1 < real m / real n"
    by linarith
  then show ?thesis
    by (simp only: zero_le_ceiling)
qed

lemma ceil_quot_upper:
  assumes "0 < n"
  shows "m \<le> nat \<lceil>real m / real n\<rceil> * n"
proof -
  have pos: "0 < real n"
    using assms by simp
  have "real m / real n \<le> real_of_int \<lceil>real m / real n\<rceil>"
    by (rule le_of_int_ceiling)
  then have "real m \<le> real_of_int \<lceil>real m / real n\<rceil> * real n"
    by (simp only: pos_divide_le_eq [OF pos])
  also have "real_of_int \<lceil>real m / real n\<rceil> = real (nat \<lceil>real m / real n\<rceil>)"
    using ceiling_quot_nonneg [of m n] by simp
  finally have "real m \<le> real (nat \<lceil>real m / real n\<rceil> * n)"
    by simp
  then show ?thesis
    by (simp only: of_nat_le_iff)
qed

lemma ceil_quot_lower:
  assumes "0 < n" and "i < nat \<lceil>real m / real n\<rceil>"
  shows "i * n < m"
proof -
  from assms(2) have "int i < \<lceil>real m / real n\<rceil>"
    by simp
  then have "real_of_int (int i) < real m / real n"
    by (simp only: less_ceiling_iff)
  moreover have "0 < real n"
    using assms(1) by simp
  ultimately have "real i * real n < real m"
    by (simp add: pos_less_divide_eq)
  then have "real (i * n) < real m"
    by simp
  then show ?thesis
    by (simp only: of_nat_less_iff)
qed

lemma concat_slices:
  "concat (map (\<lambda>i. array_slice arr (i * n) (i * n + n)) [0 ..< k]) = take (k * n) arr"
proof (induction k)
  case 0 show ?case by simp
next
  case (Suc k)
  have s: "array_slice arr (k * n) (k * n + n) = take n (drop (k * n) arr)"
    by (simp add: array_slice_def drop_take)
  have "take (Suc k * n) arr = take (k * n + n) arr"
    by (simp add: add.commute)
  also have "\<dots> = take (k * n) arr @ take n (drop (k * n) arr)"
    by (rule take_add)
  finally show ?case using Suc s by simp
qed

lemma length_slice: "length (array_slice arr s e) = min e (length arr) - s"
  by (simp add: array_slice_def min.commute)

text \<open>
  C10. For every array \<open>arr\<close> and integer \<open>size \<ge> 1\<close>, \<open>chunk(arr, size)\<close> returns
  \<open>ceil(arr.length / size)\<close> sub-arrays whose concatenation, in order, is \<open>arr\<close>; every
  sub-array but the last has exactly \<open>size\<close> elements, and when \<open>arr\<close> is not empty the last
  one has between 1 and \<open>size\<close> elements.
\<close>

theorem chunk_spec:
  assumes "1 \<le> size'"
  shows "\<exists>cs. chunk arr size' = Some cs \<and>
           int (length cs) = \<lceil>real (length arr) / real_of_int size'\<rceil> \<and>
           concat cs = arr \<and>
           (\<forall>i. Suc i < length cs \<longrightarrow> length (cs ! i) = nat size') \<and>
           (arr \<noteq> [] \<longrightarrow> cs \<noteq> [] \<and> 1 \<le> length (last cs) \<and> length (last cs) \<le> nat size')"
proof -
  define n where "n = nat size'"
  define k where "k = nat \<lceil>real (length arr) / real n\<rceil>"
  define cs where "cs = map (\<lambda>i. array_slice arr (i * n) (i * n + n)) [0 ..< k]"
  have n: "0 < n" and sz: "real_of_int size' = real n"
    using assms by (simp_all add: n_def)
  have ch: "chunk arr size' = Some cs"
    using assms by (simp add: chunk_def cs_def k_def n_def)
  have len: "length cs = k"
    by (simp add: cs_def)
  have nth: "cs ! i = array_slice arr (i * n) (i * n + n)" if "i < k" for i
    using that by (simp add: cs_def)
  have "0 \<le> \<lceil>real (length arr) / real n\<rceil>"
    by (rule ceiling_quot_nonneg)
  then have cnt: "int (length cs) = \<lceil>real (length arr) / real_of_int size'\<rceil>"
    by (simp add: len k_def sz)
  have "concat cs = take (k * n) arr"
    by (simp add: cs_def concat_slices)
  moreover have "length arr \<le> k * n"
    unfolding k_def by (rule ceil_quot_upper [OF n])
  ultimately have cat: "concat cs = arr"
    by simp
  have full: "length (cs ! i) = n" if "Suc i < length cs" for i
  proof -
    from that have "Suc i < k" by (simp add: len)
    then have "Suc i * n < length arr"
      unfolding k_def by (rule ceil_quot_lower [OF n])
    then show ?thesis
      using \<open>Suc i < k\<close> by (simp add: nth length_slice)
  qed
  have lastc: "cs \<noteq> [] \<and> 1 \<le> length (last cs) \<and> length (last cs) \<le> n" if "arr \<noteq> []"
  proof -
    have "k \<noteq> 0"
      using that \<open>length arr \<le> k * n\<close> by (cases k) simp_all
    then have ne: "cs \<noteq> []"
      using len by auto
    have lt: "k - 1 < k"
      using \<open>k \<noteq> 0\<close> by simp
    then have "(k - 1) * n < length arr"
      unfolding k_def by (rule ceil_quot_lower [OF n])
    moreover have "last cs = array_slice arr ((k - 1) * n) ((k - 1) * n + n)"
      using ne lt by (simp add: last_conv_nth len nth)
    ultimately have "length (last cs) = min ((k - 1) * n + n) (length arr) - (k - 1) * n"
      and "(k - 1) * n < length arr"
      by (simp_all only: length_slice)
    then show ?thesis
      using ne n by (auto simp: min_def)
  qed
  show ?thesis
    using ch cnt cat full lastc by (auto simp: n_def)
qed

theorem chunk_spec_witness:
  "(1::int) \<le> 2 \<and> chunk [1, 2, 3, 4, 5 :: nat] 2 = Some [[1, 2], [3, 4], [5]]"
  using chunk_spec [of 2 "[1, 2, 3, 4, 5 :: nat]"]
  by (simp add: chunk_def array_slice_def upt_rec)

subsection \<open>The segment list: the store\<close>

lemma updateSegment_absent:
  "store g = None \<Longrightarrow> updateSegment store g v upd = store"
  by (simp add: updateSegment_def)

lemma updateSegment_present:
  "store g = Some segs \<Longrightarrow>
   updateSegment store g v upd =
     store(g \<mapsto> map (\<lambda>seg. if value' seg = v then assign seg upd else seg) segs)"
  by (simp add: updateSegment_def)

lemma fold_updateSegment_absent:
  "store g = None \<Longrightarrow> fold (\<lambda>seg store. updateSegment store g (value' seg) (upd seg)) xs store = store"
  by (induction xs) (simp_all add: updateSegment_absent)

lemma fold_updateSegment_present:
  assumes keep: "\<And>seg. value' (assign seg upd) = value' seg"
    and idem: "\<And>seg. assign (assign seg upd) upd = assign seg upd"
  shows "store g = Some segs \<Longrightarrow>
    fold (\<lambda>seg store. updateSegment store g (value' seg) upd) xs store =
      store(g \<mapsto> map (\<lambda>seg. if value' seg \<in> value' ` set xs then assign seg upd else seg) segs)"
proof (induction xs arbitrary: store segs)
  case Nil
  then show ?case by (simp add: map_upd_triv)
next
  case (Cons x xs)
  let ?segs1 = "map (\<lambda>seg. if value' seg = value' x then assign seg upd else seg) segs"
  let ?store1 = "store(g \<mapsto> ?segs1)"
  have step: "updateSegment store g (value' x) upd = ?store1"
    using Cons.prems by (rule updateSegment_present)
  let ?f = "\<lambda>seg store. updateSegment store g (value' seg) upd"
  let ?m1 = "map (\<lambda>seg. if value' seg \<in> value' ` set xs then assign seg upd else seg) ?segs1"
  let ?m2 = "map (\<lambda>seg. if value' seg \<in> value' ` set (x # xs) then assign seg upd else seg) segs"
  have "?store1 g = Some ?segs1"
    by simp
  then have ih: "fold ?f xs ?store1 = ?store1(g \<mapsto> ?m1)"
    by (rule Cons.IH [of ?store1 ?segs1])
  have m: "?m1 = ?m2"
    by (auto simp: keep idem)
  have "fold ?f (x # xs) store = fold ?f xs (updateSegment store g (value' x) upd)"
    by simp
  also have "\<dots> = fold ?f xs ?store1"
    by (simp only: step)
  also have "\<dots> = ?store1(g \<mapsto> ?m1)"
    by (rule ih)
  also have "\<dots> = store(g \<mapsto> ?m2)"
    by (simp only: m fun_upd_upd)
  finally show ?case .
qed

lemma assign_Visible: "assign seg [Visible b] = seg\<lparr>visible := b\<rparr>"
  by (simp add: assign_def)

lemma assign_Locked: "assign seg [Locked b] = seg\<lparr>locked := b\<rparr>"
  by (simp add: assign_def)

lemma assign_Name_Color: "assign seg [Name n, Color c] = seg\<lparr>name := n, color := c\<rparr>"
  by (simp add: assign_def)

lemma fold_update_all:
  assumes keep: "\<And>seg. value' (assign seg upd) = value' seg"
    and idem: "\<And>seg. assign (assign seg upd) upd = assign seg upd"
  shows "fold (\<lambda>seg store. updateSegment store (groupId st) (value' seg) upd) (segments st) (segmentByGroupID st) =
    (case segmentByGroupID st (groupId st) of None \<Rightarrow> segmentByGroupID st
     | Some segs \<Rightarrow> (segmentByGroupID st)(groupId st \<mapsto> map (\<lambda>seg. assign seg upd) segs))"
proof (cases "segmentByGroupID st (groupId st)")
  case None
  then show ?thesis by (simp add: fold_updateSegment_absent)
next
  case (Some segs)
  have a: "map (\<lambda>seg. if value' seg \<in> value' ` set segs then assign seg upd else seg) segs = map (\<lambda>seg. assign seg upd) segs"
    by simp
  have "fold (\<lambda>seg store. updateSegment store (groupId st) (value' seg) upd) segs (segmentByGroupID st) =
      (segmentByGroupID st)(groupId st \<mapsto>
         map (\<lambda>seg. if value' seg \<in> value' ` set segs then assign seg upd else seg) segs)"
    using keep idem Some
    by (rule fold_updateSegment_present [of upd "segmentByGroupID st" "groupId st" segs segs])
  then show ?thesis
    using Some by (simp only: segments_def a option.case)
qed

lemma keep_Visible: "value' (assign seg [Visible b]) = value' seg"
  by (simp add: assign_def)

lemma idem_Visible: "assign (assign seg [Visible b]) [Visible b] = assign seg [Visible b]"
  by (simp add: assign_def)

lemma keep_Locked: "value' (assign seg [Locked b]) = value' seg"
  by (simp add: assign_def)

lemma idem_Locked: "assign (assign seg [Locked b]) [Locked b] = assign seg [Locked b]"
  by (simp add: assign_def)


lemma toggleGlobalVisible_store:
  "segmentByGroupID (toggleGlobalVisible st) =
    (case segmentByGroupID st (groupId st) of None \<Rightarrow> segmentByGroupID st
     | Some segs \<Rightarrow> (segmentByGroupID st)(groupId st \<mapsto> map (\<lambda>seg. seg\<lparr>visible := \<not> allVisible st\<rparr>) segs))"
  using fold_update_all [of "[Visible (\<not> allVisible st)]" st, OF keep_Visible idem_Visible]
  by (simp add: toggleGlobalVisible_def assign_Visible Let_def split: option.splits)

lemma toggleGlobalLocked_store:
  "segmentByGroupID (toggleGlobalLocked st) =
    (case segmentByGroupID st (groupId st) of None \<Rightarrow> segmentByGroupID st
     | Some segs \<Rightarrow> (segmentByGroupID st)(groupId st \<mapsto> map (\<lambda>seg. seg\<lparr>locked := \<not> allLocked st\<rparr>) segs))"
  using fold_update_all [of "[Locked (\<not> allLocked st)]" st, OF keep_Locked idem_Locked]
  by (simp add: toggleGlobalLocked_def assign_Locked Let_def split: option.splits)

lemma toggleGlobalVisible_groupId: "groupId (toggleGlobalVisible st) = groupId st"
  by (simp add: toggleGlobalVisible_def Let_def)

lemma toggleGlobalLocked_groupId: "groupId (toggleGlobalLocked st) = groupId st"
  by (simp add: toggleGlobalLocked_def Let_def)

lemma toggleGlobalVisible_segments:
  "segments (toggleGlobalVisible st) = map (\<lambda>seg. seg\<lparr>visible := \<not> allVisible st\<rparr>) (segments st)"
  by (simp add: segments_def toggleGlobalVisible_store toggleGlobalVisible_groupId split: option.splits)

lemma toggleGlobalLocked_segments:
  "segments (toggleGlobalLocked st) = map (\<lambda>seg. seg\<lparr>locked := \<not> allLocked st\<rparr>) (segments st)"
  by (simp add: segments_def toggleGlobalLocked_store toggleGlobalLocked_groupId split: option.splits)

lemma toggleGlobalVisible_others:
  "g \<noteq> groupId st \<Longrightarrow> segmentByGroupID (toggleGlobalVisible st) g = segmentByGroupID st g"
  by (simp add: toggleGlobalVisible_store split: option.splits)

lemma toggleGlobalLocked_others:
  "g \<noteq> groupId st \<Longrightarrow> segmentByGroupID (toggleGlobalLocked st) g = segmentByGroupID st g"
  by (simp add: toggleGlobalLocked_store split: option.splits)

lemma toggleGlobalVisible_frame:
  "toggleGlobalVisible st = st\<lparr>segmentByGroupID := segmentByGroupID (toggleGlobalVisible st)\<rparr>"
  by (simp add: toggleGlobalVisible_def Let_def)

lemma toggleGlobalLocked_frame:
  "toggleGlobalLocked st = st\<lparr>segmentByGroupID := segmentByGroupID (toggleGlobalLocked st)\<rparr>"
  by (simp add: toggleGlobalLocked_def Let_def)

text \<open>
  C5. \<open>toggleGlobalVisible\<close> sets the \<open>visible\<close> flag of every segment of the group to
  true when at least one segment is hidden and to false when all are visible;
  \<open>toggleGlobalLocked\<close> does the same with \<open>locked\<close>. Afterwards all segments of the
  group agree on the flag, no other field of a segment has changed (the segments are the
  old ones with that one field set), and neither the other groups nor the rest of the
  state have changed.
\<close>

theorem toggleGlobal_spec:
  fixes st :: SegmentList
  defines "hidden \<equiv> \<exists>seg \<in> set (segments st). \<not> visible seg"
    and "unlocked \<equiv> \<exists>seg \<in> set (segments st). \<not> locked seg"
  shows
    "segments (toggleGlobalVisible st) = map (\<lambda>seg. seg\<lparr>visible := hidden\<rparr>) (segments st) \<and>
     segments (toggleGlobalLocked st) = map (\<lambda>seg. seg\<lparr>locked := unlocked\<rparr>) (segments st) \<and>
     (\<forall>seg \<in> set (segments (toggleGlobalVisible st)). visible seg = hidden) \<and>
     (\<forall>seg \<in> set (segments (toggleGlobalLocked st)). locked seg = unlocked) \<and>
     (\<forall>g. g \<noteq> groupId st \<longrightarrow>
        segmentByGroupID (toggleGlobalVisible st) g = segmentByGroupID st g \<and>
        segmentByGroupID (toggleGlobalLocked st) g = segmentByGroupID st g) \<and>
     toggleGlobalVisible st = st\<lparr>segmentByGroupID := segmentByGroupID (toggleGlobalVisible st)\<rparr> \<and>
     toggleGlobalLocked st = st\<lparr>segmentByGroupID := segmentByGroupID (toggleGlobalLocked st)\<rparr>"
proof -
  have v: "(\<not> allVisible st) = hidden"
    by (simp add: allVisible_def hidden_def list_all_iff)
  have l: "(\<not> allLocked st) = unlocked"
    by (simp add: allLocked_def unlocked_def list_all_iff)
  have 1: "segments (toggleGlobalVisible st) = map (\<lambda>seg. seg\<lparr>visible := hidden\<rparr>) (segments st)"
    by (simp only: toggleGlobalVisible_segments v)
  have 2: "segments (toggleGlobalLocked st) = map (\<lambda>seg. seg\<lparr>locked := unlocked\<rparr>) (segments st)"
    by (simp only: toggleGlobalLocked_segments l)
  have 3: "\<forall>seg \<in> set (segments (toggleGlobalVisible st)). visible seg = hidden"
    by (auto simp: 1)
  have 4: "\<forall>seg \<in> set (segments (toggleGlobalLocked st)). locked seg = unlocked"
    by (auto simp: 2)
  show ?thesis
    using 1 2 3 4 toggleGlobalVisible_others toggleGlobalLocked_others
      toggleGlobalVisible_frame [of st] toggleGlobalLocked_frame [of st]
    by blast
qed

theorem toggleGlobal_spec_witness:
  "segments (toggleGlobalVisible ex_list) = map (\<lambda>seg. seg\<lparr>visible := True\<rparr>) ex_segments \<and>
   segments (toggleGlobalLocked ex_list) = map (\<lambda>seg. seg\<lparr>locked := False\<rparr>) ex_segments"
  using toggleGlobal_spec [of ex_list]
  by (simp add: ex_list_def ex_segments_def segments_def)

subsection \<open>The segment list: toggling one segment\<close>

lemma find_value_map:
  assumes "\<And>s. value' (f s) = value' s"
  shows "find (\<lambda>s. value' s = v) (map f xs) = map_option f (find (\<lambda>s. value' s = v) xs)"
  by (induction xs) (simp_all add: assms)

lemma getSegment_value: "getSegment store g v = Some seg \<Longrightarrow> value' seg = v"
  by (auto simp: getSegment_def find_Some_iff split: option.splits)

lemma getSegment_updateSegment:
  assumes "getSegment store g v = Some seg" and "\<And>s. value' (assign s upd) = value' s"
  shows "getSegment (updateSegment store g v upd) g v = Some (assign seg upd)"
proof -
  from assms(1) obtain segs where segs: "store g = Some segs"
    and f: "find (\<lambda>s. value' s = v) segs = Some seg"
    by (auto simp: getSegment_def split: option.splits)
  have v: "value' seg = v"
    using assms(1) by (rule getSegment_value)
  have "find (\<lambda>s. value' s = v) (map (\<lambda>s. if value' s = v then assign s upd else s) segs) =
      map_option (\<lambda>s. if value' s = v then assign s upd else s) (find (\<lambda>s. value' s = v) segs)"
    by (rule find_value_map) (simp add: assms(2))
  then show ?thesis
    using segs f v by (simp add: getSegment_def updateSegment_present)
qed

lemma updateSegment_segments:
  "segments (st\<lparr>segmentByGroupID := updateSegment (segmentByGroupID st) (groupId st) v upd\<rparr>) =
     map (\<lambda>s. if value' s = v then assign s upd else s) (segments st)"
  by (simp add: segments_def updateSegment_def split: option.splits)

lemma updateSegment_others:
  "g' \<noteq> g \<Longrightarrow> updateSegment store g v upd g' = store g'"
  by (simp add: updateSegment_def split: option.splits)

text \<open>
  C6. For a segment present in the group (\<open>getSegment\<close> finds it), \<open>toggleVisible(value)\<close>
  negates the \<open>visible\<close> field of the segment with that value and \<open>toggleLock(value)\<close>
  negates its \<open>locked\<close> field; the other fields of that segment, the other segments of
  the group, the other groups and the rest of the state stay as they are.
\<close>

theorem toggle_one_spec:
  assumes "getSegment (segmentByGroupID st) (groupId st) v = Some seg"
  shows
    "segments (toggleVisible v st) =
       map (\<lambda>s. if value' s = v then s\<lparr>visible := \<not> visible seg\<rparr> else s) (segments st) \<and>
     getSegment (segmentByGroupID (toggleVisible v st)) (groupId st) v =
       Some (seg\<lparr>visible := \<not> visible seg\<rparr>) \<and>
     segments (toggleLock v st) =
       map (\<lambda>s. if value' s = v then s\<lparr>locked := \<not> locked seg\<rparr> else s) (segments st) \<and>
     getSegment (segmentByGroupID (toggleLock v st)) (groupId st) v =
       Some (seg\<lparr>locked := \<not> locked seg\<rparr>) \<and>
     (\<forall>g. g \<noteq> groupId st \<longrightarrow>
        segmentByGroupID (toggleVisible v st) g = segmentByGroupID st g \<and>
        segmentByGroupID (toggleLock v st) g = segmentByGroupID st g) \<and>
     toggleVisible v st = st\<lparr>segmentByGroupID := segmentByGroupID (toggleVisible v st)\<rparr> \<and>
     toggleLock v st = st\<lparr>segmentByGroupID := segmentByGroupID (toggleLock v st)\<rparr>"
proof -
  let ?store = "segmentByGroupID st" and ?g = "groupId st"
  have tv: "toggleVisible v st = st\<lparr>segmentByGroupID := updateSegment ?store ?g v [Visible (\<not> visible seg)]\<rparr>"
    using assms by (simp add: toggleVisible_def)
  have tl: "toggleLock v st = st\<lparr>segmentByGroupID := updateSegment ?store ?g v [Locked (\<not> locked seg)]\<rparr>"
    using assms by (simp add: toggleLock_def)
  have 1: "segments (toggleVisible v st) =
       map (\<lambda>s. if value' s = v then s\<lparr>visible := \<not> visible seg\<rparr> else s) (segments st)"
    by (simp only: tv updateSegment_segments assign_Visible)
  have 2: "getSegment (segmentByGroupID (toggleVisible v st)) ?g v = Some (seg\<lparr>visible := \<not> visible seg\<rparr>)"
    using getSegment_updateSegment [OF assms, of "[Visible (\<not> visible seg)]"]
    by (simp add: tv assign_Visible)
  have 3: "segments (toggleLock v st) =
       map (\<lambda>s. if value' s = v then s\<lparr>locked := \<not> locked seg\<rparr> else s) (segments st)"
    by (simp only: tl updateSegment_segments assign_Locked)
  have 4: "getSegment (segmentByGroupID (toggleLock v st)) ?g v = Some (seg\<lparr>locked := \<not> locked seg\<rparr>)"
    using getSegment_updateSegment [OF assms, of "[Locked (\<not> locked seg)]"]
    by (simp add: tl assign_Locked)
  have 5: "segmentByGroupID (toggleVisible v st) g = ?store g \<and>
           segmentByGroupID (toggleLock v st) g = ?store g" if "g \<noteq> ?g" for g
    using that by (simp add: tv tl updateSegment_others)
  have 6: "toggleVisible v st = st\<lparr>segmentByGroupID := segmentByGroupID (toggleVisible v st)\<rparr>"
    by (simp add: tv)
  have 7: "toggleLock v st = st\<lparr>segmentByGroupID := segmentByGroupID (toggleLock v st)\<rparr>"
    by (simp add: tl)
  show ?thesis
    using 1 2 3 4 5 6 7 by blast
qed

theorem toggle_one_spec_witness:
  "getSegment (segmentByGroupID ex_list) (groupId ex_list) 1 = Some (ex_segments ! 0) \<and>
   segments (toggleVisible 1 ex_list) = [(ex_segments ! 0)\<lparr>visible := True\<rparr>, ex_segments ! 1] \<and>
   segments (toggleLock 1 ex_list) = [(ex_segments ! 0)\<lparr>locked := False\<rparr>, ex_segments ! 1]"
proof -
  have h: "getSegment (segmentByGroupID ex_list) (groupId ex_list) 1 = Some (ex_segments ! 0)"
    by (simp add: getSegment_def ex_list_def ex_segments_def)
  show ?thesis
    using h toggle_one_spec [OF h]
    by (simp add: ex_list_def ex_segments_def segments_def)
qed

subsection \<open>The segment list: the selection watcher\<close>

lemma find_value_None:
  "(find (\<lambda>seg. Some (value' seg) = sel) segs = None) = (sel \<notin> Some ` value' ` set segs)"
  by (auto simp: find_None_iff)

text \<open>
  C9. After the watcher has run on a segment list, the active segment is the value of
  a segment of the list or null. If the list is empty it becomes null; otherwise, if the
  watcher judges the previous selection unset (it is falsy) or it is not the value of a
  segment of the list, it becomes the value of the first segment; otherwise (the
  selection is judged set and is the value of a segment of the list) nothing changes.
  The watcher changes nothing but the selection.
\<close>

theorem watch_segments_spec:
  fixes segs :: "SegmentMask list" and st :: SegmentList
  defines "st' \<equiv> watch_segments segs st"
  shows
    "(activeSegment st' = None \<or> activeSegment st' \<in> Some ` value' ` set segs) \<and>
     (segs = [] \<longrightarrow> activeSegment st' = None) \<and>
     (segs \<noteq> [] \<and> (\<not> truthy (activeSegment st) \<or> activeSegment st \<notin> Some ` value' ` set segs)
        \<longrightarrow> activeSegment st' = Some (value' (hd segs))) \<and>
     (truthy (activeSegment st) \<and> activeSegment st \<in> Some ` value' ` set segs \<longrightarrow> st' = st) \<and>
     st' = st\<lparr>activeSegment := activeSegment st'\<rparr>"
proof (cases "truthy (activeSegment st) \<and> activeSegment st \<in> Some ` value' ` set segs")
  case True
  then have "st' = st"
    by (simp add: st'_def watch_segments_def find_value_None)
  then show ?thesis
    using True by auto
next
  case False
  then have eq: "st' = st\<lparr>activeSegment := (if segs \<noteq> [] then Some (value' (segs ! 0)) else None)\<rparr>"
    by (auto simp: st'_def watch_segments_def find_value_None setActiveSegment_def)
  show ?thesis
  proof (cases segs)
    case Nil
    then show ?thesis using eq False by simp
  next
    case (Cons s ss)
    then show ?thesis using eq False by auto
  qed
qed

theorem watch_segments_spec_witness:
  "activeSegment (watch_segments ex_segments (ex_list\<lparr>activeSegment := Some 7\<rparr>)) = Some 1 \<and>
   activeSegment (watch_segments [] ex_list) = None \<and>
   watch_segments ex_segments ex_list = ex_list"
  using watch_segments_spec [of ex_segments "ex_list\<lparr>activeSegment := Some 7\<rparr>"]
    watch_segments_spec [of "[]" ex_list] watch_segments_spec [of ex_segments ex_list]
  by (simp add: ex_list_def ex_segments_def truthy_def)

subsection \<open>The segment list: the end of an edit\<close>

lemma stopEditing_commit:
  assumes "editingSegmentValue st = Some v" and "v \<noteq> 0"
  shows "stopEditing hx double_times True st =
     st\<lparr>segmentByGroupID :=
          updateSegment (segmentByGroupID st) (groupId st) v
            [Name (editState_name st),
             Color (take 3 (hx (editState_color st)) @ [Math_round (double_times (editState_opacity st) 255)])],
        editingSegmentValue := None, editDialog := False\<rparr>"
  using assms by (simp add: stopEditing_def truthy_def Let_def)

lemma segments_more_update:
  "segments (st\<lparr>segmentByGroupID := store, editingSegmentValue := e, editDialog := d\<rparr>) =
   segments (st\<lparr>segmentByGroupID := store\<rparr>)"
  by (simp add: segments_def)

text \<open>
  When the value being edited is not 0, \<open>stopEditing(true)\<close> writes the edited name and
  the colour to the segments of that value and to nothing else, clears
  \<open>editingSegmentValue\<close> and closes the dialog.
\<close>

lemma stopEditing_nonzero:
  assumes "editingSegmentValue st = Some v" and "v \<noteq> 0"
  shows "segments (stopEditing hx double_times True st) =
     map (\<lambda>s. if value' s = v
               then s\<lparr>name := editState_name st,
                      color := take 3 (hx (editState_color st))
                                 @ [Math_round (double_times (editState_opacity st) 255)]\<rparr>
               else s) (segments st)"
    and "editingSegmentValue (stopEditing hx double_times True st) = None"
    and "editDialog (stopEditing hx double_times True st) = False"
proof -
  note eq = stopEditing_commit [OF assms, of hx double_times]
  show "segments (stopEditing hx double_times True st) =
     map (\<lambda>s. if value' s = v
               then s\<lparr>name := editState_name st,
                      color := take 3 (hx (editState_color st))
                                 @ [Math_round (double_times (editState_opacity st) 255)]\<rparr>
               else s) (segments st)"
    by (simp only: eq segments_more_update updateSegment_segments assign_Name_Color)
  show "editingSegmentValue (stopEditing hx double_times True st) = None"
    and "editDialog (stopEditing hx double_times True st) = False"
    by (simp_all add: eq)
qed


subsection \<open>The polygon tool: the grid accessor\<close>

lemma offset_bounds:
  fixes a b c nx ny nz :: int
  assumes "0 \<le> a" "a < nx" "0 \<le> b" "b < ny" "0 \<le> c" "c < nz"
  shows "0 \<le> a + b * nx + c * (nx * ny)" and "a + b * nx + c * (nx * ny) < nx * ny * nz"
proof -
  have nx: "0 \<le> nx" and ny: "0 \<le> ny"
    using assms by simp_all
  then have nxy: "0 \<le> nx * ny"
    by simp
  show "0 \<le> a + b * nx + c * (nx * ny)"
    using assms nx nxy by simp
  have "b * nx \<le> (ny - 1) * nx"
    using assms(4) nx by (intro mult_right_mono) simp_all
  moreover have "c * (nx * ny) \<le> (nz - 1) * (nx * ny)"
    using assms(6) nxy by (intro mult_right_mono) simp_all
  ultimately have "a + b * nx + c * (nx * ny) \<le> (nx - 1) + (ny - 1) * nx + (nz - 1) * (nx * ny)"
    using assms(2) by linarith
  also have "\<dots> = nx * ny * nz - 1"
    by (simp add: algebra_simps)
  finally show "a + b * nx + c * (nx * ny) < nx * ny * nz"
    by simp
qed

lemma computeOffsetIndex_bounds:
  assumes "containsPoint ext ijk"
  shows "0 \<le> computeOffsetIndex ext ijk"
    and "computeOffsetIndex ext ijk < prod_list (getDimensions ext)"
proof -
  obtain iMin iMax jMin jMax kMin kMax where ext: "ext = (iMin, iMax, jMin, jMax, kMin, kMax)"
    by (cases ext)
  obtain i j k where ijk: "ijk = (i, j, k)"
    by (cases ijk)
  have b: "0 \<le> i - iMin" "i - iMin < iMax - iMin + 1" "0 \<le> j - jMin" "j - jMin < jMax - jMin + 1"
    "0 \<le> k - kMin" "k - kMin < kMax - kMin + 1"
    using assms by (simp_all add: ext ijk split: if_splits)
  show "0 \<le> computeOffsetIndex ext ijk"
    using offset_bounds(1) [OF b] by (simp add: ext ijk)
  show "computeOffsetIndex ext ijk < prod_list (getDimensions ext)"
    using offset_bounds(2) [OF b] by (simp add: ext ijk mult.assoc)
qed

lemma setAtUnsafe_cell:
  "setAtUnsafe img slice' axisIdx d0 d1 v =
     (case cell_offset img slice' axisIdx (d0, d1) of
        None \<Rightarrow> (img, False)
      | Some offset \<Rightarrow> (img\<lparr>scalars := (scalars img)[nat offset := v]\<rparr>, True))"
proof (cases "containsPoint (extent img) (convertTo3D slice' axisIdx d0 d1)")
  case False
  then show ?thesis
    by (simp add: setAtUnsafe_def cell_offset_def)
next
  case True
  let ?offset = "computeOffsetIndex (extent img) (convertTo3D slice' axisIdx d0 d1)"
  have "0 \<le> ?offset"
    using True by (rule computeOffsetIndex_bounds)
  have "setTuple (scalars img) ?offset v = (scalars img)[nat ?offset := v]"
  proof (cases "?offset < int (length (scalars img))")
    case True
    with \<open>0 \<le> ?offset\<close> show ?thesis
      by (simp add: setTuple_def)
  next
    case False
    then have "length (scalars img) \<le> nat ?offset"
      by linarith
    then have "(scalars img)[nat ?offset := v] = scalars img"
      by (rule list_update_beyond)
    with False show ?thesis
      by (simp add: setTuple_def)
  qed
  then show ?thesis
    using True by (simp add: setAtUnsafe_def cell_offset_def)
qed

lemma setAtUnsafe_extent: "extent (fst (setAtUnsafe img slice' axisIdx d0 d1 v)) = extent img"
  by (simp add: setAtUnsafe_cell split: option.splits)

lemma setAtUnsafe_mtime: "mtime (fst (setAtUnsafe img slice' axisIdx d0 d1 v)) = mtime img"
  by (simp add: setAtUnsafe_cell split: option.splits)

lemma setAtUnsafe_length:
  "length (scalars (fst (setAtUnsafe img slice' axisIdx d0 d1 v))) = length (scalars img)"
  by (simp add: setAtUnsafe_cell split: option.splits)

lemma cell_offset_extent:
  "extent img' = extent img \<Longrightarrow> cell_offset img' slice' axisIdx cell = cell_offset img slice' axisIdx cell"
  by (simp add: cell_offset_def cong: if_cong)

lemma setAtUnsafe_nth:
  assumes "p < length (scalars img)"
  shows "scalars (fst (setAtUnsafe img slice' axisIdx d0 d1 v)) ! p =
     (if cell_offset img slice' axisIdx (d0, d1) = Some (int p) then v else scalars img ! p)"
proof (cases "cell_offset img slice' axisIdx (d0, d1)")
  case None
  then show ?thesis
    by (simp add: setAtUnsafe_cell)
next
  case (Some offset)
  from Some have c: "containsPoint (extent img) (convertTo3D slice' axisIdx d0 d1)"
    and o: "offset = computeOffsetIndex (extent img) (convertTo3D slice' axisIdx d0 d1)"
    by (auto simp: cell_offset_def Let_def split: if_splits)
  have "0 \<le> offset"
    unfolding o using c by (rule computeOffsetIndex_bounds)
  then have "(nat offset = p) = (offset = int p)"
    by auto
  then show ?thesis
    using Some assms by (simp add: setAtUnsafe_cell nth_list_update)
qed

lemma fill_cells_Nil: "fill_cells slice' axisIdx v [] img = img"
  by (simp add: fill_cells_def)

lemma fill_cells_Cons:
  "fill_cells slice' axisIdx v (cell # cells) img =
     fill_cells slice' axisIdx v cells (fst (setAtUnsafe img slice' axisIdx (fst cell) (snd cell) v))"
  by (simp add: fill_cells_def case_prod_beta)

lemma fill_cells_frame:
  "extent (fill_cells slice' axisIdx v cells img) = extent img \<and>
   mtime (fill_cells slice' axisIdx v cells img) = mtime img \<and>
   length (scalars (fill_cells slice' axisIdx v cells img)) = length (scalars img)"
proof (induction cells arbitrary: img)
  case Nil
  show ?case by (simp add: fill_cells_Nil)
next
  case (Cons cell cells)
  show ?case
    by (simp only: fill_cells_Cons Cons.IH setAtUnsafe_extent setAtUnsafe_mtime setAtUnsafe_length)
qed

lemma fill_cells_nth:
  assumes "p < length (scalars img)"
  shows "scalars (fill_cells slice' axisIdx v cells img) ! p =
     (if Some (int p) \<in> cell_offset img slice' axisIdx ` set cells then v else scalars img ! p)"
  using assms
proof (induction cells arbitrary: img)
  case Nil
  show ?case by (simp add: fill_cells_Nil)
next
  case (Cons cell cells)
  let ?img1 = "fst (setAtUnsafe img slice' axisIdx (fst cell) (snd cell) v)"
  have len: "p < length (scalars ?img1)"
    using Cons.prems by (simp add: setAtUnsafe_length)
  have co: "cell_offset ?img1 slice' axisIdx = cell_offset img slice' axisIdx"
    by (rule ext) (rule cell_offset_extent, rule setAtUnsafe_extent)
  have "scalars (fill_cells slice' axisIdx v (cell # cells) img) ! p =
      (if Some (int p) \<in> cell_offset img slice' axisIdx ` set cells then v else scalars ?img1 ! p)"
    using Cons.IH [OF len] by (simp only: fill_cells_Cons co)
  also have "scalars ?img1 ! p =
      (if cell_offset img slice' axisIdx cell = Some (int p) then v else scalars img ! p)"
    using setAtUnsafe_nth [OF Cons.prems, of slice' axisIdx "fst cell" "snd cell" v] by simp
  finally have step: "scalars (fill_cells slice' axisIdx v (cell # cells) img) ! p =
      (if Some (int p) \<in> cell_offset img slice' axisIdx ` set cells then v
       else if cell_offset img slice' axisIdx cell = Some (int p) then v else scalars img ! p)" .
  have mem: "(Some (int p) \<in> cell_offset img slice' axisIdx ` set (cell # cells)) =
      (cell_offset img slice' axisIdx cell = Some (int p) \<or>
       Some (int p) \<in> cell_offset img slice' axisIdx ` set cells)"
    by (simp add: eq_commute [of "Some (int p)"])
  show ?case
    by (simp only: step mem) simp
qed

text \<open>
  C8. The grid accessor never writes outside the image. \<open>setAtUnsafe(d0, d1, value)\<close>
  returns true exactly when the index \<open>(i, j, k)\<close> rebuilt from \<open>(d0, d1)\<close> and the slice
  lies within the extent; it then stores the value at the offset computed for that
  index, which is a position of the scalar array when the array has a value for each
  voxel; otherwise it returns false and leaves the image as it is. The scalar array
  keeps its length, and whatever cells a rasteriser sets through the accessor, also
  cells outside the image, every position that is not the offset of one of those cells
  within the extent keeps its value.
\<close>

theorem setAtUnsafe_spec:
  fixes img :: vtkImageData and slice' d0 d1 v :: int and axisIdx :: nat
  defines "ijk \<equiv> convertTo3D slice' axisIdx d0 d1"
    and "res \<equiv> setAtUnsafe img slice' axisIdx d0 d1 v"
  shows
    "snd res = containsPoint (extent img) ijk \<and>
     (containsPoint (extent img) ijk \<longrightarrow>
        fst res = img\<lparr>scalars := (scalars img)[nat (computeOffsetIndex (extent img) ijk) := v]\<rparr> \<and>
        0 \<le> computeOffsetIndex (extent img) ijk \<and>
        (scalars_complete img \<longrightarrow>
           computeOffsetIndex (extent img) ijk < int (length (scalars img)))) \<and>
     (\<not> containsPoint (extent img) ijk \<longrightarrow> fst res = img) \<and>
     length (scalars (fst res)) = length (scalars img) \<and>
     (\<forall>cells.
        length (scalars (fill_cells slice' axisIdx v cells img)) = length (scalars img) \<and>
        (\<forall>p. p < length (scalars img) \<and>
              Some (int p) \<notin> cell_offset img slice' axisIdx ` set cells \<longrightarrow>
              scalars (fill_cells slice' axisIdx v cells img) ! p = scalars img ! p))"
proof -
  let ?c = "containsPoint (extent img) ijk"
  let ?o = "computeOffsetIndex (extent img) ijk"
  have co: "cell_offset img slice' axisIdx (d0, d1) = (if ?c then Some ?o else None)"
    by (simp add: cell_offset_def ijk_def)
  have 1: "snd res = ?c"
    by (simp add: res_def setAtUnsafe_cell co)
  have 2: "fst res = img\<lparr>scalars := (scalars img)[nat ?o := v]\<rparr>" if ?c
    using that by (simp add: res_def setAtUnsafe_cell co)
  have 3: "0 \<le> ?o" if ?c
    using that by (rule computeOffsetIndex_bounds)
  have 4: "?o < int (length (scalars img))" if ?c and "scalars_complete img"
    using computeOffsetIndex_bounds(2) [OF that(1)] that(2) by (simp add: scalars_complete_def)
  have 5: "fst res = img" if "\<not> ?c"
    using that by (simp add: res_def setAtUnsafe_cell co)
  have 6: "length (scalars (fst res)) = length (scalars img)"
    unfolding res_def by (rule setAtUnsafe_length)
  have 7: "length (scalars (fill_cells slice' axisIdx v cells img)) = length (scalars img)" for cells
    by (simp add: fill_cells_frame)
  have 8: "scalars (fill_cells slice' axisIdx v cells img) ! p = scalars img ! p"
    if "p < length (scalars img)" and "Some (int p) \<notin> cell_offset img slice' axisIdx ` set cells"
    for cells p
    using that by (simp add: fill_cells_nth)
  show ?thesis
    using 1 2 3 4 5 6 7 8 by blast
qed

theorem setAtUnsafe_spec_witness:
  "setAtUnsafe ex_image 0 2 1 1 7 = (ex_image\<lparr>scalars := [0, 0, 0, 7]\<rparr>, True) \<and>
   setAtUnsafe ex_image 0 2 2 1 7 = (ex_image, False) \<and>
   scalars_complete ex_image"
proof -
  have c: "containsPoint (extent ex_image) (convertTo3D 0 2 1 1)"
    "\<not> containsPoint (extent ex_image) (convertTo3D 0 2 2 1)"
    "scalars_complete ex_image"
    by (simp_all add: ex_image_def convertTo3D_def scalars_complete_def)
  have o: "nat (computeOffsetIndex (extent ex_image) (convertTo3D 0 2 1 1)) = 3"
    by (simp add: ex_image_def convertTo3D_def)
  have s: "(scalars ex_image)[3 := 7] = [0, 0, 0, 7]"
    by (simp add: ex_image_def)
  from setAtUnsafe_spec [where img = ex_image and slice' = 0 and axisIdx = 2 and ?d0.0 = 1
      and ?d1.0 = 1 and v = 7] c(1)
  have "setAtUnsafe ex_image 0 2 1 1 7 = (ex_image\<lparr>scalars := [0, 0, 0, 7]\<rparr>, True)"
    by (simp add: o s prod_eq_iff)
  moreover from setAtUnsafe_spec [where img = ex_image and slice' = 0 and axisIdx = 2
      and ?d0.0 = 2 and ?d1.0 = 1 and v = 7] c(2)
  have "setAtUnsafe ex_image 0 2 2 1 7 = (ex_image, False)"
    by (simp add: prod_eq_iff)
  ultimately show ?thesis
    using c(3) by simp
qed

subsection \<open>The polygon tool: rasterize\<close>

lemma offset_decode:
  fixes a b c nx ny :: int
  assumes "0 \<le> a" "a < nx" "0 \<le> b" "b < ny"
  shows "(a + b * nx + c * (nx * ny)) mod nx = a"
    and "(a + b * nx + c * (nx * ny)) div nx mod ny = b"
    and "(a + b * nx + c * (nx * ny)) div nx div ny = c"
proof -
  have nx: "nx \<noteq> 0" and ny: "ny \<noteq> 0"
    using assms by auto
  have e: "a + b * nx + c * (nx * ny) = a + nx * (b + c * ny)"
    by (simp add: algebra_simps)
  have q: "(a + nx * (b + c * ny)) div nx = b + c * ny"
    using assms(1,2) nx by simp
  show "(a + b * nx + c * (nx * ny)) mod nx = a"
    using assms(1,2) by (simp add: e)
  have "(b + c * ny) mod ny = b"
    using assms(3,4) by simp
  then show "(a + b * nx + c * (nx * ny)) div nx mod ny = b"
    by (simp only: e q)
  have "(b + c * ny) div ny = c"
    using assms(3,4) ny by simp
  then show "(a + b * nx + c * (nx * ny)) div nx div ny = c"
    by (simp only: e q)
qed

lemma computeOffsetIndex_inj:
  assumes "containsPoint ext p" and "containsPoint ext q"
    and "computeOffsetIndex ext p = computeOffsetIndex ext q"
  shows "p = q"
proof -
  obtain iMin iMax jMin jMax kMin kMax where ext: "ext = (iMin, iMax, jMin, jMax, kMin, kMax)"
    by (cases ext)
  obtain i j k where p: "p = (i, j, k)"
    by (cases p)
  obtain i' j' k' where q: "q = (i', j', k')"
    by (cases q)
  let ?nx = "iMax - iMin + 1" and ?ny = "jMax - jMin + 1"
  let ?o = "\<lambda>a b c :: int. a + b * ?nx + c * (?nx * ?ny)"
  have bp: "0 \<le> i - iMin" "i - iMin < ?nx" "0 \<le> j - jMin" "j - jMin < ?ny"
    using assms(1) by (simp_all add: ext p split: if_splits)
  have bq: "0 \<le> i' - iMin" "i' - iMin < ?nx" "0 \<le> j' - jMin" "j' - jMin < ?ny"
    using assms(2) by (simp_all add: ext q split: if_splits)
  have eq: "?o (i - iMin) (j - jMin) (k - kMin) = ?o (i' - iMin) (j' - jMin) (k' - kMin)"
    using assms(3) by (simp add: ext p q)
  have "i - iMin = i' - iMin"
    using offset_decode(1) [OF bp, of "k - kMin"] offset_decode(1) [OF bq, of "k' - kMin"] eq
    by simp
  moreover have "j - jMin = j' - jMin"
    using offset_decode(2) [OF bp, of "k - kMin"] offset_decode(2) [OF bq, of "k' - kMin"] eq
    by simp
  moreover have "k - kMin = k' - kMin"
    using offset_decode(3) [OF bp, of "k - kMin"] offset_decode(3) [OF bq, of "k' - kMin"] eq
    by simp
  ultimately show ?thesis
    by (simp add: p q)
qed

lemma cell_offset_voxel:
  assumes "containsPoint (extent img) ijk"
  shows "(Some (computeOffsetIndex (extent img) ijk) \<in> cell_offset img slice' axisIdx ` set cells) =
     (ijk \<in> (\<lambda>cell. convertTo3D slice' axisIdx (fst cell) (snd cell)) ` set cells)"
proof
  assume "Some (computeOffsetIndex (extent img) ijk) \<in> cell_offset img slice' axisIdx ` set cells"
  then obtain cell where cell: "cell \<in> set cells"
    and co: "cell_offset img slice' axisIdx cell = Some (computeOffsetIndex (extent img) ijk)"
    by (auto simp: image_iff)
  let ?q = "convertTo3D slice' axisIdx (fst cell) (snd cell)"
  from co have c: "containsPoint (extent img) ?q"
    and o: "computeOffsetIndex (extent img) ?q = computeOffsetIndex (extent img) ijk"
    by (auto simp: cell_offset_def Let_def split: if_splits)
  have "?q = ijk"
    using c assms o by (rule computeOffsetIndex_inj)
  then show "ijk \<in> (\<lambda>cell. convertTo3D slice' axisIdx (fst cell) (snd cell)) ` set cells"
    using cell by blast
next
  assume "ijk \<in> (\<lambda>cell. convertTo3D slice' axisIdx (fst cell) (snd cell)) ` set cells"
  then obtain cell where cell: "cell \<in> set cells"
    and q: "ijk = convertTo3D slice' axisIdx (fst cell) (snd cell)"
    by blast
  have "cell_offset img slice' axisIdx cell = Some (computeOffsetIndex (extent img) ijk)"
    using assms by (simp add: cell_offset_def q)
  then show "Some (computeOffsetIndex (extent img) ijk) \<in> cell_offset img slice' axisIdx ` set cells"
    using cell by (metis image_eqI)
qed

lemma fill_cells_voxel:
  assumes "scalars_complete img" and "containsPoint (extent img) ijk"
  shows "scalars (fill_cells slice' axisIdx v cells img) ! nat (computeOffsetIndex (extent img) ijk) =
     (if ijk \<in> (\<lambda>cell. convertTo3D slice' axisIdx (fst cell) (snd cell)) ` set cells then v
      else scalars img ! nat (computeOffsetIndex (extent img) ijk))"
proof -
  let ?o = "computeOffsetIndex (extent img) ijk"
  have b: "0 \<le> ?o" "?o < int (length (scalars img))"
    using computeOffsetIndex_bounds [OF assms(2)] assms(1) by (simp_all add: scalars_complete_def)
  then have "nat ?o < length (scalars img)" and "int (nat ?o) = ?o"
    by simp_all
  then show ?thesis
    using fill_cells_nth [of "nat ?o" img slice' axisIdx v cells]
    by (simp only: cell_offset_voxel [OF assms(2)])
qed

lemma splice_remove_3:
  "splice_remove axis [x, y, z] =
     (if axis = 0 then [y, z] else if axis = 1 then [x, z] else if axis = 2 then [x, y]
      else [x, y, z])"
proof -
  consider "axis = 0" | "axis = 1" | "axis = 2" | "3 \<le> axis"
    by linarith
  then show ?thesis
    by cases (simp_all add: splice_remove_def)
qed

lemma convertTo3D_cell:
  "convertTo3D slice' axis (fst cell) (snd cell) =
     (case cell of (d0, d1) \<Rightarrow>
        if axis = 0 then (slice', d0, d1) else if axis = 1 then (d0, slice', d1)
        else (d0, d1, slice'))"
  by (simp add: convertTo3D_def split: prod.split)

lemma convertTo3D_mem:
  "((i, j, k) \<in> (\<lambda>cell. convertTo3D slice' axis (fst cell) (snd cell)) ` set cells) =
     (if axis = 0 then i = slice' \<and> (j, k) \<in> set cells
      else if axis = 1 then j = slice' \<and> (i, k) \<in> set cells
      else k = slice' \<and> (i, j) \<in> set cells)"
  by (force simp: convertTo3D_def image_iff)

lemma cell_offset_mem:
  "(Some q \<in> cell_offset img slice' axis ` set cells) =
     (\<exists>cell \<in> set cells.
        containsPoint (extent img) (convertTo3D slice' axis (fst cell) (snd cell)) \<and>
        computeOffsetIndex (extent img) (convertTo3D slice' axis (fst cell) (snd cell)) = q)"
  by (auto simp: cell_offset_def Let_def image_iff split: if_splits)

lemma rasterize_active:
  assumes "activeSegmentGroupID st = Some gid" and "gid \<noteq> []" and "dataIndex st gid = Some img"
  shows "rasterize getPoints worldToIndex fillPoly toolId segment st =
     st\<lparr>dataIndex := (dataIndex st)(gid \<mapsto>
          modified (globalMTime st)
            (fill_cells (slice st) (sliceAxis st) (value' segment)
               (fillPoly (grid_size img (sliceAxis st))
                  (map (\<lambda>pt. case worldToIndex img pt of
                              (x, y, z) \<Rightarrow> splice_remove (sliceAxis st) [x, y, z])
                     (getPoints toolId)))
               img)),
        globalMTime := Suc (globalMTime st)\<rparr>"
  using assms by (simp add: rasterize_def Let_def)

text \<open>
  C1. When a segment group is active (the paint store has a truthy
  \<open>activeSegmentGroupID\<close>) and its image exists, \<open>rasterize(toolId, segment)\<close> takes the
  points of the tool to index space with \<open>worldToIndex\<close>, removes from each the
  coordinate of the slice axis (\<open>x\<close> for the axis 0, \<open>y\<close> for 1, \<open>z\<close> for 2), and gives
  these 2D points to \<open>fillPoly\<close>, along with the two dimensions of the image across the
  slice axis. In the image of the group, whose extent is
  \<open>(iMin, iMax, jMin, jMax, kMin, kMax)\<close>:
  \<^item> a voxel \<open>(i, j, k)\<close> of the extent has the value of the segment when it lies on
    the current slice (its coordinate on the slice axis is \<open>slice\<close>) and its two other
    coordinates are a cell that \<open>fillPoly\<close> sets, and has its old value otherwise (for an
    array with a value for each voxel);
  \<^item> a position of the scalar array that is not the offset of such a cell, put on the
    current slice, keeps its value, whatever the length of the array;
  \<^item> the image is marked as modified: its modification time is the advanced
    counter, later than before;
  \<^item> the extent, the other images and the rest of the state are as they were.
\<close>

theorem rasterize_spec:
  fixes st :: PolygonTool and segment :: SegmentMask and toolId :: 'tool
    and getPoints :: "'tool \<Rightarrow> 'w list"
    and worldToIndex :: "vtkImageData \<Rightarrow> 'w \<Rightarrow> 'c \<times> 'c \<times> 'c"
    and fillPoly :: "int list \<Rightarrow> 'c list list \<Rightarrow> (int \<times> int) list"
    and iMin iMax jMin jMax kMin kMax :: int
  assumes "activeSegmentGroupID st = Some gid" and "gid \<noteq> []" and "dataIndex st gid = Some img"
    and "extent img = (iMin, iMax, jMin, jMax, kMin, kMax)"
  defines "axis \<equiv> sliceAxis st"
  defines "nx \<equiv> iMax - iMin + 1" and "ny \<equiv> jMax - jMin + 1" and "nz \<equiv> kMax - kMin + 1"
  defines "indexSpacePoints2D \<equiv>
      map (\<lambda>pt. case worldToIndex img pt of
                  (x, y, z) \<Rightarrow>
                    if axis = 0 then [y, z] else if axis = 1 then [x, z]
                    else if axis = 2 then [x, y] else [x, y, z])
        (getPoints toolId)"
  defines "cells \<equiv>
      fillPoly (if axis = 0 then [ny, nz] else if axis = 1 then [nx, nz]
                else if axis = 2 then [nx, ny] else [nx, ny, nz])
        indexSpacePoints2D"
  defines "voxel \<equiv> \<lambda>cell. case cell of (d0, d1) \<Rightarrow>
      if axis = 0 then (slice st, d0, d1) else if axis = 1 then (d0, slice st, d1)
      else (d0, d1, slice st)"
  defines "st' \<equiv> rasterize getPoints worldToIndex fillPoly toolId segment st"
  shows
    "\<exists>img'. dataIndex st' gid = Some img' \<and>
       extent img' = extent img \<and>
       length (scalars img') = length (scalars img) \<and>
       (scalars_complete img \<longrightarrow>
          (\<forall>i j k. iMin \<le> i \<and> i \<le> iMax \<and> jMin \<le> j \<and> j \<le> jMax \<and> kMin \<le> k \<and> k \<le> kMax \<longrightarrow>
             scalars img' ! nat ((i - iMin) + (j - jMin) * nx + (k - kMin) * (nx * ny)) =
               (if (if axis = 0 then i = slice st \<and> (j, k) \<in> set cells
                    else if axis = 1 then j = slice st \<and> (i, k) \<in> set cells
                    else k = slice st \<and> (i, j) \<in> set cells)
                then value' segment
                else scalars img ! nat ((i - iMin) + (j - jMin) * nx + (k - kMin) * (nx * ny))))) \<and>
       (\<forall>p < length (scalars img).
          scalars img' ! p =
            (if \<exists>cell \<in> set cells.
                  containsPoint (extent img) (voxel cell) \<and>
                  computeOffsetIndex (extent img) (voxel cell) = int p
             then value' segment else scalars img ! p)) \<and>
       mtime img' = Suc (globalMTime st) \<and>
       (mtime img \<le> globalMTime st \<longrightarrow> mtime img < mtime img') \<and>
       globalMTime st' = Suc (globalMTime st) \<and>
       (\<forall>g. g \<noteq> gid \<longrightarrow> dataIndex st' g = dataIndex st g) \<and>
       activeSegmentGroupID st' = activeSegmentGroupID st \<and>
       slice st' = slice st \<and> sliceAxis st' = sliceAxis st"
proof -
  let ?ext = "extent img"
  let ?v = "value' segment"
  have ext: "?ext = (iMin, iMax, jMin, jMax, kMin, kMax)"
    by (rule assms(4))
  have size2D: "grid_size img axis =
      (if axis = 0 then [ny, nz] else if axis = 1 then [nx, nz]
       else if axis = 2 then [nx, ny] else [nx, ny, nz])"
    by (simp add: grid_size_def ext splice_remove_3 nx_def ny_def nz_def)
  have pts: "map (\<lambda>pt. case worldToIndex img pt of
                          (x, y, z) \<Rightarrow> splice_remove axis [x, y, z]) (getPoints toolId) =
      indexSpacePoints2D"
    unfolding indexSpacePoints2D_def by (simp only: splice_remove_3)
  have vox: "convertTo3D (slice st) axis (fst cell) (snd cell) = voxel cell" for cell
    unfolding voxel_def by (rule convertTo3D_cell)
  let ?filled = "fill_cells (slice st) axis ?v cells img"
  let ?img' = "modified (globalMTime st) ?filled"
  have "st' = st\<lparr>dataIndex := (dataIndex st)(gid \<mapsto>
          modified (globalMTime st)
            (fill_cells (slice st) (sliceAxis st) ?v
               (fillPoly (grid_size img (sliceAxis st))
                  (map (\<lambda>pt. case worldToIndex img pt of
                              (x, y, z) \<Rightarrow> splice_remove (sliceAxis st) [x, y, z])
                     (getPoints toolId)))
               img)),
        globalMTime := Suc (globalMTime st)\<rparr>"
    unfolding st'_def using assms(1-3) by (rule rasterize_active)
  then have eq: "st' = st\<lparr>dataIndex := (dataIndex st)(gid \<mapsto> ?img'),
      globalMTime := Suc (globalMTime st)\<rparr>"
    unfolding cells_def
    by (simp only: axis_def [symmetric] size2D pts)
  have 1: "dataIndex st' gid = Some ?img'"
    by (simp add: eq)
  have 2: "extent ?img' = ?ext" "length (scalars ?img') = length (scalars img)"
    by (simp_all add: modified_def fill_cells_frame)
  have 3: "scalars ?img' ! nat ((i - iMin) + (j - jMin) * nx + (k - kMin) * (nx * ny)) =
      (if (if axis = 0 then i = slice st \<and> (j, k) \<in> set cells
           else if axis = 1 then j = slice st \<and> (i, k) \<in> set cells
           else k = slice st \<and> (i, j) \<in> set cells)
       then ?v
       else scalars img ! nat ((i - iMin) + (j - jMin) * nx + (k - kMin) * (nx * ny)))"
    if c: "scalars_complete img"
      and b: "iMin \<le> i \<and> i \<le> iMax \<and> jMin \<le> j \<and> j \<le> jMax \<and> kMin \<le> k \<and> k \<le> kMax"
    for i j k
  proof -
    have inside: "containsPoint ?ext (i, j, k)"
      using b by (simp add: ext)
    have off: "computeOffsetIndex ?ext (i, j, k) =
        (i - iMin) + (j - jMin) * nx + (k - kMin) * (nx * ny)"
      by (simp add: ext nx_def ny_def)
    have "scalars ?filled ! nat (computeOffsetIndex ?ext (i, j, k)) =
        (if (i, j, k) \<in> (\<lambda>cell. convertTo3D (slice st) axis (fst cell) (snd cell)) ` set cells
         then ?v else scalars img ! nat (computeOffsetIndex ?ext (i, j, k)))"
      using c inside by (rule fill_cells_voxel)
    then show ?thesis
      by (simp only: off convertTo3D_mem) (simp add: modified_def)
  qed
  have 4: "scalars ?img' ! p =
      (if \<exists>cell \<in> set cells.
            containsPoint ?ext (voxel cell) \<and> computeOffsetIndex ?ext (voxel cell) = int p
       then ?v else scalars img ! p)" if "p < length (scalars img)" for p
    using fill_cells_nth [OF that, of "slice st" axis ?v cells]
    by (simp only: cell_offset_mem vox) (simp add: modified_def)
  have 5: "mtime ?img' = Suc (globalMTime st)"
    by (simp add: modified_def)
  then have 6: "mtime img < mtime ?img'" if "mtime img \<le> globalMTime st"
    using that by simp
  have 7: "globalMTime st' = Suc (globalMTime st)"
    "activeSegmentGroupID st' = activeSegmentGroupID st"
    "slice st' = slice st" "sliceAxis st' = sliceAxis st"
    by (simp_all add: eq)
  have 8: "dataIndex st' g = dataIndex st g" if "g \<noteq> gid" for g
    using that by (simp add: eq)
  show ?thesis
    using 1 2 3 4 5 6 7 8 by blast
qed

theorem rasterize_spec_witness:
  "activeSegmentGroupID ex_tool_j = Some ''g'' \<and> dataIndex ex_tool_j ''g'' = Some ex_volume \<and>
   extent ex_volume = (0, 1, 0, 1, 0, 1) \<and> scalars_complete ex_volume \<and>
   sliceAxis ex_tool_j = 1 \<and> slice ex_tool_j = 1 \<and>
   ex_fillPoly [2, 2] [[0, 0], [1, 0], [1, 1]] = [(0, 0), (1, 0), (1, 1), (2, 0)] \<and>
   dataIndex (rasterize ex_getPoints ex_worldToIndex ex_fillPoly 0 (ex_segments ! 0) ex_tool_j) ''g'' =
     Some \<lparr>extent = (0, 1, 0, 1, 0, 1), scalars = [0, 0, 1, 1, 0, 0, 0, 1], mtime = 6\<rparr>"
proof -
  have h: "activeSegmentGroupID ex_tool_j = Some ''g''" "''g'' \<noteq> []"
    "dataIndex ex_tool_j ''g'' = Some ex_volume" "extent ex_volume = (0, 1, 0, 1, 0, 1)"
    by (simp_all add: ex_tool_j_def ex_volume_def)
  have c: "scalars_complete ex_volume" "sliceAxis ex_tool_j = 1" "slice ex_tool_j = 1"
    by (simp_all add: scalars_complete_def ex_volume_def ex_tool_j_def)
  have f: "ex_fillPoly [2, 2] [[0, 0], [1, 0], [1, 1]] = [(0, 0), (1, 0), (1, 1), (2, 0)]"
    by (simp add: ex_fillPoly_def)
  have pts: "map (\<lambda>pt. case ex_worldToIndex ex_volume pt of
                          (x, y, z) \<Rightarrow> splice_remove 1 [x, y, z]) (ex_getPoints 0) =
      [[0, 0], [1, 0], [1, 1]]"
    by (simp add: ex_getPoints_def ex_worldToIndex_def splice_remove_def)
  have g: "grid_size ex_volume 1 = [2, 2]"
    by (simp add: grid_size_def ex_volume_def splice_remove_def)
  have fill: "fill_cells 1 1 1 [(0, 0), (1, 0), (1, 1), (2, 0)] ex_volume =
      ex_volume\<lparr>scalars := [0, 0, 1, 1, 0, 0, 0, 1]\<rparr>"
    by (simp add: fill_cells_def setAtUnsafe_def convertTo3D_def setTuple_def ex_volume_def)
  have r: "dataIndex (rasterize ex_getPoints ex_worldToIndex ex_fillPoly 0 (ex_segments ! 0) ex_tool_j) ''g'' =
     Some \<lparr>extent = (0, 1, 0, 1, 0, 1), scalars = [0, 0, 1, 1, 0, 0, 0, 1], mtime = 6\<rparr>"
    using pts g f fill
    by (simp add: rasterize_def ex_tool_j_def ex_segments_def modified_def ex_volume_def)
  show ?thesis
    using h c f r
      rasterize_spec [OF h, where fillPoly = ex_fillPoly and worldToIndex = ex_worldToIndex
        and getPoints = ex_getPoints and toolId = 0 and segment = "ex_segments ! 0"]
    by simp
qed

subsection \<open>Guard clauses\<close>

text \<open>
  C2. The guarded operations return early and leave the state as it is when their
  referent is missing: \<open>rasterize\<close> when \<open>activeSegmentGroupID\<close> is null or undefined, or
  when no image is registered for it; \<open>toggleVisible(value)\<close> and \<open>toggleLock(value)\<close>
  when \<open>getSegment(groupId, value)\<close> gives no segment.
\<close>

theorem guards_spec:
  "((activeSegmentGroupID pt = None \<or>
     (\<exists>gid. activeSegmentGroupID pt = Some gid \<and> dataIndex pt gid = None)) \<longrightarrow>
      rasterize getPoints worldToIndex fillPoly toolId segment pt = pt) \<and>
   (getSegment (segmentByGroupID st) (groupId st) v = None \<longrightarrow>
      toggleVisible v st = st \<and> toggleLock v st = st)"
  by (auto simp: rasterize_def toggleVisible_def toggleLock_def)

theorem guards_spec_witness:
  "activeSegmentGroupID (ex_tool\<lparr>activeSegmentGroupID := None\<rparr>) = None \<and>
   rasterize ex_getPoints ex_worldToIndex ex_fillPoly 0 (ex_segments ! 0)
     (ex_tool\<lparr>activeSegmentGroupID := None\<rparr>) = ex_tool\<lparr>activeSegmentGroupID := None\<rparr> \<and>
   dataIndex (ex_tool\<lparr>dataIndex := Map.empty\<rparr>) ''g'' = None \<and>
   rasterize ex_getPoints ex_worldToIndex ex_fillPoly 0 (ex_segments ! 0)
     (ex_tool\<lparr>dataIndex := Map.empty\<rparr>) = ex_tool\<lparr>dataIndex := Map.empty\<rparr> \<and>
   getSegment (segmentByGroupID ex_list) (groupId ex_list) 7 = None \<and>
   toggleVisible 7 ex_list = ex_list \<and> toggleLock 7 ex_list = ex_list"
proof -
  have h: "activeSegmentGroupID (ex_tool\<lparr>activeSegmentGroupID := None\<rparr>) = None"
    "getSegment (segmentByGroupID ex_list) (groupId ex_list) 7 = None"
    by (simp_all add: getSegment_def ex_list_def ex_segments_def)
  have h': "activeSegmentGroupID (ex_tool\<lparr>dataIndex := Map.empty\<rparr>) = Some ''g''"
    "dataIndex (ex_tool\<lparr>dataIndex := Map.empty\<rparr>) ''g'' = None"
    by (simp_all add: ex_tool_def)
  show ?thesis
    using h h'
      guards_spec [of "ex_tool\<lparr>activeSegmentGroupID := None\<rparr>" ex_getPoints ex_worldToIndex
        ex_fillPoly 0 "ex_segments ! 0" ex_list 7]
      guards_spec [of "ex_tool\<lparr>dataIndex := Map.empty\<rparr>" ex_getPoints ex_worldToIndex
        ex_fillPoly 0 "ex_segments ! 0" ex_list 7]
    by simp
qed

end
